theory Spec2Isabelle
  imports Main "HOL-Library.Multiset" "HOL-Library.Sublist"
begin

text \<open>
  The React component \<open>TodoListCopilot\<close>: its state cells, its validation routine and its
  event handlers. A handler reads the state of the current render and sets some cells;
  it is modelled as a function from the state to the next state. A failure is what the
  component shows: the handler sets \<open>validationMessage\<close> and leaves the collection.
\<close>

section \<open>JavaScript strings\<close>

text \<open>
  A JavaScript string is a sequence of UTF-16 code units. The component reads its raw
  text from a text field, so any code unit can occur; a code unit is modelled by its
  number. String literals of the source are written \<open>str ''...''\<close>.
\<close>

type_synonym code_unit = nat
type_synonym jsstring = "code_unit list"

definition str :: "string \<Rightarrow> jsstring" where
  "str cs = map of_char cs"

text \<open>
  The white space of ECMAScript: \<open>String.prototype.trim\<close> strips it and the regular
  expression class \<open>\s\<close> matches it (WhiteSpace and LineTerminator: tab, line feed,
  vertical tab, form feed, carriage return, space, no-break space, U+1680,
  U+2000 to U+200A, U+2028, U+2029, U+202F, U+205F, U+3000, U+FEFF).
\<close>

definition isWhiteSpace :: "code_unit \<Rightarrow> bool" where
  "isWhiteSpace c =
     (c \<in> set [9, 10, 11, 12, 13, 32, 160, 5760, 8232, 8233, 8239, 8287, 12288, 65279]
      \<or> (8192 \<le> c \<and> c \<le> 8202))"

definition isLowerLetter :: "code_unit \<Rightarrow> bool" where
  "isLowerLetter c = (97 \<le> c \<and> c \<le> 122)"

definition isUpperLetter :: "code_unit \<Rightarrow> bool" where
  "isUpperLetter c = (65 \<le> c \<and> c \<le> 90)"

definition isDigit :: "code_unit \<Rightarrow> bool" where
  "isDigit c = (48 \<le> c \<and> c \<le> 57)"

text \<open>The character class \<open>[a-zA-Z0-9\s]\<close> that both regular expressions of the source negate.\<close>

definition inClass :: "code_unit \<Rightarrow> bool" where
  "inClass c = (isLowerLetter c \<or> isUpperLetter c \<or> isDigit c \<or> isWhiteSpace c)"

text \<open>\<open>String.prototype.trim\<close>: white space is dropped at both ends.\<close>

definition trim :: "jsstring \<Rightarrow> jsstring" where
  "trim s = rev (dropWhile isWhiteSpace (rev (dropWhile isWhiteSpace s)))"

text \<open>
  \<open>toUpperCase\<close> and \<open>toLowerCase\<close> map code unit by code unit on the letters a to z and
  A to Z and leave digits and white space alone. The case mappings of Unicode outside
  ASCII are not modelled (those code units are left as they are). The source applies
  the two functions to text that has passed the test against \<open>inClass\<close> and to the texts
  of stored items; a stored text has passed that test as well (\<open>wellFormed\<close> below holds
  in every state the component reaches), so on those states the model is the runtime's
  mapping.
\<close>

definition toUpperCaseUnit :: "code_unit \<Rightarrow> code_unit" where
  "toUpperCaseUnit c = (if isLowerLetter c then c - 32 else c)"

definition toLowerCaseUnit :: "code_unit \<Rightarrow> code_unit" where
  "toLowerCaseUnit c = (if isUpperLetter c then c + 32 else c)"

definition toUpperCase :: "jsstring \<Rightarrow> jsstring" where
  "toUpperCase s = map toUpperCaseUnit s"

definition toLowerCase :: "jsstring \<Rightarrow> jsstring" where
  "toLowerCase s = map toLowerCaseUnit s"

text \<open>\<open>s.charAt(0)\<close> is the first code unit as a string, or the empty string; \<open>s.slice(1)\<close> is the rest.\<close>

definition charAt0 :: "jsstring \<Rightarrow> jsstring" where
  "charAt0 s = take 1 s"

definition slice1 :: "jsstring \<Rightarrow> jsstring" where
  "slice1 s = drop 1 s"

section \<open>The component's state\<close>

record todo =
  text' :: jsstring
  completed :: bool

text \<open>The five \<open>useState\<close> cells of \<open>TodoListCopilot\<close>.\<close>

record component =
  todos :: "todo list"
  input :: jsstring
  validationMessage :: string
  editingIndex :: int
  editInput :: jsstring

definition initial :: component where
  "initial = \<lparr>todos = [], input = [], validationMessage = [], editingIndex = - 1, editInput = []\<rparr>"

text \<open>The object that \<open>validateAndFormatText\<close> returns.\<close>

record validation =
  isValid :: bool
  formattedText :: jsstring
  message :: string

section \<open>Validation\<close>

text \<open>
  \<open>todos.some((todo, index) => index !== excludeIndex &&
     todo.text.toLowerCase() === text.toLowerCase())\<close>.
  The array index is a natural number, the excluded index any integer (\<open>-1\<close> by default).
\<close>

definition isDuplicate :: "todo list \<Rightarrow> jsstring \<Rightarrow> int \<Rightarrow> bool" where
  "isDuplicate ts txt excludeIndex =
     list_ex (\<lambda>(index, t). int index \<noteq> excludeIndex \<and> toLowerCase (text' t) = toLowerCase txt)
       (enumerate 0 ts)"

definition validateAndFormatText :: "todo list \<Rightarrow> jsstring \<Rightarrow> int \<Rightarrow> validation" where
  "validateAndFormatText ts txt excludeIndex =
     (let trimmedText = trim txt in
      if trimmedText = [] then
        \<lparr>isValid = False, formattedText = [], message = ''Please enter a todo item''\<rparr>
      else if list_ex (\<lambda>c. \<not> inClass c) trimmedText then
        \<lparr>isValid = False, formattedText = [],
         message = ''Only letters, numbers, and spaces are allowed''\<rparr>
      else
        (let alphanumericOnly = filter inClass trimmedText;
             formatted = toUpperCase (charAt0 alphanumericOnly) @ toLowerCase (slice1 alphanumericOnly)
         in if isDuplicate ts formatted excludeIndex then
              \<lparr>isValid = False, formattedText = [], message = ''This todo item already exists''\<rparr>
            else \<lparr>isValid = True, formattedText = formatted, message = []\<rparr>))"

section \<open>The handlers\<close>

definition addTodo :: "component \<Rightarrow> component" where
  "addTodo s =
     (let result = validateAndFormatText (todos s) (input s) (- 1) in
      if \<not> isValid result then s\<lparr>validationMessage := message result\<rparr>
      else s\<lparr>todos := todos s @ [\<lparr>text' = formattedText result, completed = False\<rparr>],
             input := [], validationMessage := []\<rparr>)"

text \<open>\<open>todos.filter((_, i) => i !== index)\<close>\<close>

definition removeTodo :: "int \<Rightarrow> component \<Rightarrow> component" where
  "removeTodo index s =
     s\<lparr>todos := map snd (filter (\<lambda>(i, t). int i \<noteq> index) (enumerate 0 (todos s)))\<rparr>"

text \<open>\<open>todos.map((todo, i) => i === index ? { ...todo, completed: !todo.completed } : todo)\<close>\<close>

definition toggleTodo :: "int \<Rightarrow> component \<Rightarrow> component" where
  "toggleTodo index s =
     s\<lparr>todos := map (\<lambda>(i, t). if int i = index then t\<lparr>completed := \<not> completed t\<rparr> else t)
                   (enumerate 0 (todos s))\<rparr>"

definition saveEdit :: "int \<Rightarrow> component \<Rightarrow> component" where
  "saveEdit index s =
     (let result = validateAndFormatText (todos s) (editInput s) index in
      if \<not> isValid result then s\<lparr>validationMessage := message result\<rparr>
      else s\<lparr>todos := map (\<lambda>(i, t). if int i = index then t\<lparr>text' := formattedText result\<rparr> else t)
                          (enumerate 0 (todos s)),
             editingIndex := - 1, validationMessage := []\<rparr>)"

definition getIncompleteTodos :: "component \<Rightarrow> todo list" where
  "getIncompleteTodos s = filter (\<lambda>t. \<not> completed t) (todos s)"

definition getCompletedTodos :: "component \<Rightarrow> todo list" where
  "getCompletedTodos s = filter (\<lambda>t. completed t) (todos s)"

text \<open>
  The \<open>onChange\<close> handlers of the two text fields: they store the field's value and
  clear the validation message.
\<close>

definition changeInput :: "jsstring \<Rightarrow> component \<Rightarrow> component" where
  "changeInput v s = s\<lparr>input := v, validationMessage := []\<rparr>"

definition changeEditInput :: "jsstring \<Rightarrow> component \<Rightarrow> component" where
  "changeEditInput v s = s\<lparr>editInput := v, validationMessage := []\<rparr>"

section \<open>Sequences of operations\<close>

text \<open>
  An operation of the store is what the user does: type a text and submit it, type a
  text into the edit field of item \<open>i\<close> and save it, toggle item \<open>i\<close>, delete item \<open>i\<close>.
  The index is any integer.
\<close>

datatype event = Add jsstring | Edit int jsstring | Toggle int | Delete int

fun step :: "component \<Rightarrow> event \<Rightarrow> component" where
  "step s (Add raw) = addTodo (changeInput raw s)"
| "step s (Edit i raw) = saveEdit i (changeEditInput raw s)"
| "step s (Toggle i) = toggleTodo i s"
| "step s (Delete i) = removeTodo i s"

definition run :: "event list \<Rightarrow> component" where
  "run evs = foldl step initial evs"

text \<open>The two invariants of the collection, as the handlers maintain them.\<close>

definition noDuplicates :: "todo list \<Rightarrow> bool" where
  "noDuplicates ts = distinct (map (\<lambda>t. toLowerCase (text' t)) ts)"

definition wellFormed :: "todo list \<Rightarrow> bool" where
  "wellFormed ts = list_all (\<lambda>t. text' t \<noteq> [] \<and> list_all inClass (text' t)) ts"

text \<open>The characters the specification names: letters, digits and the space character.\<close>

definition alnumOrSpace :: "code_unit \<Rightarrow> bool" where
  "alnumOrSpace c = (isLowerLetter c \<or> isUpperLetter c \<or> isDigit c \<or> c = 32)"

text \<open>
  The normalised form in the specification's words: the first character upper-cased,
  every remaining character lower-cased. It is compared below with what
  \<open>validateAndFormatText\<close> computes.
\<close>

definition capitalized :: "jsstring \<Rightarrow> jsstring" where
  "capitalized t = (case t of [] \<Rightarrow> [] | c # cs \<Rightarrow> toUpperCaseUnit c # map toLowerCaseUnit cs)"

text \<open>An index refers to an existing item.\<close>

definition validIndex :: "int \<Rightarrow> 'a list \<Rightarrow> bool" where
  "validIndex i xs = (0 \<le> i \<and> i < int (length xs))"

section \<open>The array operations, by position\<close>

lemmas unit_defs =
  isWhiteSpace_def isLowerLetter_def isUpperLetter_def isDigit_def inClass_def alnumOrSpace_def
  toUpperCaseUnit_def toLowerCaseUnit_def

lemmas string_defs =
  str_def trim_def toUpperCase_def toLowerCase_def charAt0_def slice1_def capitalized_def

lemmas handler_defs =
  isDuplicate_def validateAndFormatText_def addTodo_def removeTodo_def toggleTodo_def
  saveEdit_def getIncompleteTodos_def getCompletedTodos_def changeInput_def
  changeEditInput_def initial_def run_def validIndex_def

lemma map_enumerate_at:
  "map (\<lambda>(i, t). if int i = k then f t else t) (enumerate 0 ts) =
     (if validIndex k ts then ts[nat k := f (ts ! nat k)] else ts)"
proof (rule nth_equalityI)
  show "length (map (\<lambda>(i, t). if int i = k then f t else t) (enumerate 0 ts)) =
        length (if validIndex k ts then ts[nat k := f (ts ! nat k)] else ts)"
    by simp
next
  fix j
  assume "j < length (map (\<lambda>(i, t). if int i = k then f t else t) (enumerate 0 ts))"
  then have j: "j < length ts" by simp
  then show "map (\<lambda>(i, t). if int i = k then f t else t) (enumerate 0 ts) ! j =
        (if validIndex k ts then ts[nat k := f (ts ! nat k)] else ts) ! j"
    by (auto simp: nth_enumerate_eq validIndex_def nth_list_update)
qed

lemma filter_enumerate_shift:
  "map snd (filter (\<lambda>(i, t). i \<noteq> k) (enumerate n ts)) =
     (if n \<le> k \<and> k < n + length ts then take (k - n) ts @ drop (Suc (k - n)) ts else ts)"
proof (induction ts arbitrary: n)
  case Nil
  show ?case by simp
next
  case (Cons t ts)
  show ?case
  proof (cases "n = k")
    case True
    then show ?thesis using Cons [of "Suc n"] by simp
  next
    case False
    show ?thesis
    proof (cases "n < k")
      case True
      then have "k - n = Suc (k - Suc n)" by arith
      then show ?thesis using True False Cons [of "Suc n"] by auto
    next
      case le: False
      then show ?thesis using False Cons [of "Suc n"] by auto
    qed
  qed
qed

lemma filter_enumerate_at:
  "map snd (filter (\<lambda>(i, t). int i \<noteq> k) (enumerate 0 ts)) =
     (if validIndex k ts then take (nat k) ts @ drop (Suc (nat k)) ts else ts)"
proof (cases "0 \<le> k")
  case True
  then have "(\<lambda>(i, t::'a). int i \<noteq> k) = (\<lambda>(i, t). i \<noteq> nat k)"
    by (auto simp: fun_eq_iff)
  then show ?thesis using True filter_enumerate_shift [of "nat k" 0 ts]
    by (auto simp: validIndex_def)
next
  case False
  then have "(\<lambda>(i, t::'a). int i \<noteq> k) = (\<lambda>(i, t). True)"
    by (auto simp: fun_eq_iff)
  then show ?thesis using False
    by (simp add: validIndex_def)
qed

lemma isDuplicate_iff:
  "isDuplicate ts txt k \<longleftrightarrow>
     (\<exists>j < length ts. int j \<noteq> k \<and> toLowerCase (text' (ts ! j)) = toLowerCase txt)"
  by (auto simp: isDuplicate_def list_ex_iff in_set_enumerate_eq)

lemma isDuplicate_no_exclusion:
  "isDuplicate ts txt (- 1) \<longleftrightarrow> (\<exists>t \<in> set ts. toLowerCase (text' t) = toLowerCase txt)"
proof
  assume "isDuplicate ts txt (- 1)"
  then obtain j where "j < length ts" and "toLowerCase (text' (ts ! j)) = toLowerCase txt"
    by (auto simp: isDuplicate_iff)
  then show "\<exists>t \<in> set ts. toLowerCase (text' t) = toLowerCase txt"
    using nth_mem by blast
next
  assume "\<exists>t \<in> set ts. toLowerCase (text' t) = toLowerCase txt"
  then obtain j where "j < length ts" and "toLowerCase (text' (ts ! j)) = toLowerCase txt"
    by (auto simp: in_set_conv_nth)
  then show "isDuplicate ts txt (- 1)"
    by (auto simp: isDuplicate_iff)
qed

lemma toggleTodo_at:
  "todos (toggleTodo i s) =
     (if validIndex i (todos s)
      then (todos s)[nat i := (todos s ! nat i)\<lparr>completed := \<not> completed (todos s ! nat i)\<rparr>]
      else todos s)"
  by (simp add: toggleTodo_def map_enumerate_at)

lemma removeTodo_at:
  "todos (removeTodo i s) =
     (if validIndex i (todos s) then take (nat i) (todos s) @ drop (Suc (nat i)) (todos s)
      else todos s)"
  by (simp add: removeTodo_def filter_enumerate_at)

section \<open>What validation returns\<close>

lemma formatted_is_capitalized:
  assumes "t \<noteq> []" and "list_all inClass t"
  shows "toUpperCase (charAt0 (filter inClass t)) @ toLowerCase (slice1 (filter inClass t))
         = capitalized t"
proof -
  have "filter inClass t = t"
    using assms(2) by (simp add: list_all_iff)
  then show ?thesis
    using assms(1) by (cases t) (simp_all add: string_defs)
qed

lemma validate_empty:
  "trim txt = [] \<Longrightarrow>
   validateAndFormatText ts txt k =
     \<lparr>isValid = False, formattedText = [], message = ''Please enter a todo item''\<rparr>"
  by (simp add: validateAndFormatText_def)

lemma validate_invalid:
  "trim txt \<noteq> [] \<Longrightarrow> \<not> list_all inClass (trim txt) \<Longrightarrow>
   validateAndFormatText ts txt k =
     \<lparr>isValid = False, formattedText = [],
      message = ''Only letters, numbers, and spaces are allowed''\<rparr>"
  by (simp add: validateAndFormatText_def list_ex_iff list_all_iff)

lemma validate_duplicate:
  "trim txt \<noteq> [] \<Longrightarrow> list_all inClass (trim txt) \<Longrightarrow>
   isDuplicate ts (capitalized (trim txt)) k \<Longrightarrow>
   validateAndFormatText ts txt k =
     \<lparr>isValid = False, formattedText = [], message = ''This todo item already exists''\<rparr>"
  using formatted_is_capitalized [of "trim txt"]
  by (simp add: validateAndFormatText_def list_ex_iff list_all_iff)

lemma validate_ok:
  "trim txt \<noteq> [] \<Longrightarrow> list_all inClass (trim txt) \<Longrightarrow>
   \<not> isDuplicate ts (capitalized (trim txt)) k \<Longrightarrow>
   validateAndFormatText ts txt k =
     \<lparr>isValid = True, formattedText = capitalized (trim txt), message = []\<rparr>"
  using formatted_is_capitalized [of "trim txt"]
  by (simp add: validateAndFormatText_def list_ex_iff list_all_iff)

lemma alnumOrSpace_inClass: "alnumOrSpace c \<Longrightarrow> inClass c"
  by (auto simp: alnumOrSpace_def inClass_def isWhiteSpace_def)

section \<open>Adding an item\<close>

text \<open>
  C1. When the text field holds a raw text whose trimmed form is not empty and consists
  of letters, digits and the space character only, and no stored item has the text of
  its normalised form up to case, \<open>addTodo\<close> succeeds: it appends one item with
  \<open>completed = False\<close> whose text is the trimmed text with its first character
  upper-cased and the rest lower-cased, clears the validation message and alters no
  other item.
\<close>

theorem add_appends_normalized:
  assumes "trim (input s) \<noteq> []"
    and "list_all alnumOrSpace (trim (input s))"
    and "\<forall>t \<in> set (todos s). toLowerCase (text' t) \<noteq> toLowerCase (capitalized (trim (input s)))"
  shows "addTodo s =
           s\<lparr>todos := todos s @ [\<lparr>text' = capitalized (trim (input s)), completed = False\<rparr>],
             input := [], validationMessage := []\<rparr>
         \<and> todos (addTodo s) =
             todos s @ [\<lparr>text' = capitalized (trim (input s)), completed = False\<rparr>]
         \<and> validationMessage (addTodo s) = []"
proof -
  have cls: "list_all inClass (trim (input s))"
    using assms(2) by (auto simp: list_all_iff alnumOrSpace_inClass)
  have "\<not> isDuplicate (todos s) (capitalized (trim (input s))) (- 1)"
    using assms(3) by (simp add: isDuplicate_no_exclusion)
  then have "validateAndFormatText (todos s) (input s) (- 1) =
      \<lparr>isValid = True, formattedText = capitalized (trim (input s)), message = []\<rparr>"
    using assms(1) cls by (rule validate_ok [rotated 2])
  then show ?thesis
    by (simp add: addTodo_def)
qed

theorem add_appends_normalized_witness:
  "trim (str ''  buy MILK 2 '') \<noteq> []
   \<and> list_all alnumOrSpace (trim (str ''  buy MILK 2 ''))
   \<and> todos (addTodo \<lparr>todos = [\<lparr>text' = str ''Task'', completed = True\<rparr>],
                      input = str ''  buy MILK 2 '', validationMessage = [],
                      editingIndex = - 1, editInput = []\<rparr>)
       = [\<lparr>text' = str ''Task'', completed = True\<rparr>,
          \<lparr>text' = str ''Buy milk 2'', completed = False\<rparr>]"
proof -
  let ?s = "\<lparr>todos = [\<lparr>text' = str ''Task'', completed = True\<rparr>],
             input = str ''  buy MILK 2 '', validationMessage = [],
             editingIndex = - 1, editInput = []\<rparr>"
  have t: "trim (input ?s) = str ''buy MILK 2''"
    by (simp add: string_defs unit_defs)
  have h1: "trim (input ?s) \<noteq> []"
    unfolding t by (simp add: str_def)
  have h2: "list_all alnumOrSpace (trim (input ?s))"
    unfolding t by (simp add: str_def unit_defs)
  have c: "capitalized (trim (input ?s)) = str ''Buy milk 2''"
    unfolding t by (simp add: string_defs unit_defs)
  have h3: "\<forall>t \<in> set (todos ?s).
      toLowerCase (text' t) \<noteq> toLowerCase (capitalized (trim (input ?s)))"
    unfolding c by (simp add: string_defs unit_defs)
  show ?thesis
    using add_appends_normalized [OF h1 h2 h3] h1 h2 c by simp
qed

text \<open>
  C2. If the text field trims to the empty string, adding fails with Empty; otherwise,
  if the trimmed text holds a character outside the letters, the digits and the space
  character, adding fails with InvalidCharacters; a failure leaves the collection.

  The source does not keep the second part. Its message and the README allow "only
  letters, numbers, and spaces", but the class of its regular expression is
  \<open>[^a-zA-Z0-9\s]\<close>, and \<open>\s\<close> is every white-space character. The text "a", tab, "b"
  keeps its tab when trimmed, the tab is none of the allowed characters, and \<open>addTodo\<close>
  stores the item "A", tab, "b" and reports nothing.
\<close>

theorem add_stores_tab:
  "trim [97, 9, 98] \<noteq> []
   \<and> \<not> list_all alnumOrSpace (trim [97, 9, 98])
   \<and> addTodo (changeInput [97, 9, 98] initial) =
       initial\<lparr>todos := [\<lparr>text' = [65, 9, 98], completed = False\<rparr>]\<rparr>
   \<and> validationMessage (addTodo (changeInput [97, 9, 98] initial))
       \<noteq> ''Only letters, numbers, and spaces are allowed''
   \<and> todos (addTodo (changeInput [97, 9, 98] initial)) \<noteq> todos (changeInput [97, 9, 98] initial)"
  by (simp add: handler_defs string_defs unit_defs)

text \<open>
  What \<open>addTodo\<close> does reject: a text that trims to the empty string, and a text with a
  character that is neither a letter, a digit nor white space. Nothing but the
  validation message changes then.
\<close>

lemma addTodo_rejects:
  "(trim (input s) = [] \<longrightarrow>
      addTodo s = s\<lparr>validationMessage := ''Please enter a todo item''\<rparr>
      \<and> todos (addTodo s) = todos s)
   \<and> (trim (input s) \<noteq> []
        \<and> (\<exists>c \<in> set (trim (input s)). \<not> alnumOrSpace c \<and> \<not> isWhiteSpace c) \<longrightarrow>
      addTodo s = s\<lparr>validationMessage := ''Only letters, numbers, and spaces are allowed''\<rparr>
      \<and> todos (addTodo s) = todos s)"
proof (intro conjI impI)
  assume "trim (input s) = []"
  then have v: "validateAndFormatText (todos s) (input s) (- 1) =
      \<lparr>isValid = False, formattedText = [], message = ''Please enter a todo item''\<rparr>"
    by (rule validate_empty)
  show "addTodo s = s\<lparr>validationMessage := ''Please enter a todo item''\<rparr>"
    by (simp add: addTodo_def v)
  then show "todos (addTodo s) = todos s"
    by simp
next
  assume a: "trim (input s) \<noteq> []
        \<and> (\<exists>c \<in> set (trim (input s)). \<not> alnumOrSpace c \<and> \<not> isWhiteSpace c)"
  then have "\<not> list_all inClass (trim (input s))"
    by (auto simp: list_all_iff inClass_def alnumOrSpace_def)
  with a have v: "validateAndFormatText (todos s) (input s) (- 1) =
      \<lparr>isValid = False, formattedText = [],
       message = ''Only letters, numbers, and spaces are allowed''\<rparr>"
    by (simp add: validate_invalid)
  show "addTodo s = s\<lparr>validationMessage := ''Only letters, numbers, and spaces are allowed''\<rparr>"
    by (simp add: addTodo_def v)
  then show "todos (addTodo s) = todos s"
    by simp
qed

text \<open>
  C3. When the text field passes the two checks of validation: if some stored item
  has the text of the normalised form up to case, \<open>addTodo\<close> reports "This todo item
  already exists" (DuplicateItem) and changes nothing else; if none has, it succeeds,
  so it does not report a duplicate. Adding "task" and then "TASK" leaves one item.
\<close>

theorem add_duplicate:
  assumes "trim (input s) \<noteq> []" and "list_all inClass (trim (input s))"
  shows "((\<exists>t \<in> set (todos s).
             toLowerCase (text' t) = toLowerCase (capitalized (trim (input s)))) \<longrightarrow>
          addTodo s = s\<lparr>validationMessage := ''This todo item already exists''\<rparr>
          \<and> todos (addTodo s) = todos s)
       \<and> (\<not> (\<exists>t \<in> set (todos s).
             toLowerCase (text' t) = toLowerCase (capitalized (trim (input s)))) \<longrightarrow>
          validationMessage (addTodo s) = []
          \<and> length (todos (addTodo s)) = Suc (length (todos s)))"
proof (intro conjI impI)
  assume "\<exists>t \<in> set (todos s). toLowerCase (text' t) = toLowerCase (capitalized (trim (input s)))"
  then have "isDuplicate (todos s) (capitalized (trim (input s))) (- 1)"
    by (simp add: isDuplicate_no_exclusion)
  then have v: "validateAndFormatText (todos s) (input s) (- 1) =
      \<lparr>isValid = False, formattedText = [], message = ''This todo item already exists''\<rparr>"
    using assms by (simp add: validate_duplicate)
  show "addTodo s = s\<lparr>validationMessage := ''This todo item already exists''\<rparr>"
    by (simp add: addTodo_def v)
  then show "todos (addTodo s) = todos s"
    by simp
next
  assume "\<not> (\<exists>t \<in> set (todos s).
      toLowerCase (text' t) = toLowerCase (capitalized (trim (input s))))"
  then have "\<not> isDuplicate (todos s) (capitalized (trim (input s))) (- 1)"
    by (simp add: isDuplicate_no_exclusion)
  then have v: "validateAndFormatText (todos s) (input s) (- 1) =
      \<lparr>isValid = True, formattedText = capitalized (trim (input s)), message = []\<rparr>"
    using assms by (simp add: validate_ok)
  show "validationMessage (addTodo s) = []"
    by (simp add: addTodo_def v)
  show "length (todos (addTodo s)) = Suc (length (todos s))"
    by (simp add: addTodo_def v)
qed

theorem add_duplicate_witness:
  "todos (run [Add (str ''task'')]) = [\<lparr>text' = str ''Task'', completed = False\<rparr>]
   \<and> run [Add (str ''task''), Add (str ''TASK'')] =
       (changeInput (str ''TASK'') (run [Add (str ''task'')]))
         \<lparr>validationMessage := ''This todo item already exists''\<rparr>
   \<and> length (todos (run [Add (str ''task''), Add (str ''TASK'')])) = 1
   \<and> validationMessage (run [Add (str ''task''), Add (str ''milk'')]) = []
   \<and> length (todos (run [Add (str ''task''), Add (str ''milk'')])) = 2"
proof -
  let ?s1 = "run [Add (str ''task'')]"
  let ?d = "changeInput (str ''TASK'') ?s1"
  let ?n = "changeInput (str ''milk'') ?s1"
  have s1: "todos ?s1 = [\<lparr>text' = str ''Task'', completed = False\<rparr>]"
    by (simp add: handler_defs string_defs unit_defs)
  have td: "trim (input ?d) = str ''TASK''" and tn: "trim (input ?n) = str ''milk''"
    by (simp_all add: changeInput_def string_defs unit_defs)
  have d1: "trim (input ?d) \<noteq> []" and d2: "list_all inClass (trim (input ?d))"
    unfolding td by (simp_all add: str_def unit_defs)
  have n1: "trim (input ?n) \<noteq> []" and n2: "list_all inClass (trim (input ?n))"
    unfolding tn by (simp_all add: str_def unit_defs)
  have d3: "\<exists>t \<in> set (todos ?d).
      toLowerCase (text' t) = toLowerCase (capitalized (trim (input ?d)))"
    unfolding td by (simp add: changeInput_def s1) (simp add: string_defs unit_defs)
  have n3: "\<not> (\<exists>t \<in> set (todos ?n).
      toLowerCase (text' t) = toLowerCase (capitalized (trim (input ?n))))"
    unfolding tn by (simp add: changeInput_def s1) (simp add: string_defs unit_defs)
  have rd: "run [Add (str ''task''), Add (str ''TASK'')] = addTodo ?d"
    and rn: "run [Add (str ''task''), Add (str ''milk'')] = addTodo ?n"
    by (simp_all add: run_def)
  have ld: "length (todos ?d) = 1" and ln: "length (todos ?n) = 1"
    by (simp_all add: changeInput_def s1)
  show ?thesis
    using add_duplicate [OF d1 d2] add_duplicate [OF n1 n2] d3 n3 s1 ld ln
    unfolding rd rn by simp
qed

section \<open>The invariants, step by step\<close>

lemma validate_valid:
  assumes "isValid (validateAndFormatText ts txt k)"
  shows "trim txt \<noteq> [] \<and> list_all inClass (trim txt)
         \<and> \<not> isDuplicate ts (capitalized (trim txt)) k
         \<and> formattedText (validateAndFormatText ts txt k) = capitalized (trim txt)"
proof -
  have a: "trim txt \<noteq> []"
  proof
    assume "trim txt = []"
    then have "\<not> isValid (validateAndFormatText ts txt k)"
      by (simp add: validate_empty)
    with assms show False by simp
  qed
  have b: "list_all inClass (trim txt)"
  proof (rule ccontr)
    assume "\<not> list_all inClass (trim txt)"
    with a have "\<not> isValid (validateAndFormatText ts txt k)"
      by (simp add: validate_invalid)
    with assms show False by simp
  qed
  have c: "\<not> isDuplicate ts (capitalized (trim txt)) k"
  proof
    assume "isDuplicate ts (capitalized (trim txt)) k"
    with a b have "\<not> isValid (validateAndFormatText ts txt k)"
      by (simp add: validate_duplicate)
    with assms show False by simp
  qed
  show ?thesis
    using a b c validate_ok [of "txt" ts k] by simp
qed

lemma saveEdit_at:
  "todos (saveEdit i s) =
     (if isValid (validateAndFormatText (todos s) (editInput s) i) \<and> validIndex i (todos s)
      then (todos s)[nat i := (todos s ! nat i)
              \<lparr>text' := formattedText (validateAndFormatText (todos s) (editInput s) i)\<rparr>]
      else todos s)"
  by (simp add: saveEdit_def map_enumerate_at Let_def)

lemma addTodo_at:
  "todos (addTodo s) =
     (if isValid (validateAndFormatText (todos s) (input s) (- 1))
      then todos s @ [\<lparr>text' = formattedText (validateAndFormatText (todos s) (input s) (- 1)),
                      completed = False\<rparr>]
      else todos s)"
  by (simp add: addTodo_def Let_def)

lemma unit_case_inClass:
  assumes "inClass c"
  shows "inClass (toUpperCaseUnit c) \<and> inClass (toLowerCaseUnit c)"
proof -
  have up: "isLowerLetter c \<Longrightarrow> isUpperLetter (c - 32)"
    by (simp add: isLowerLetter_def isUpperLetter_def) arith
  have low: "isUpperLetter c \<Longrightarrow> isLowerLetter (c + 32)"
    by (simp add: isLowerLetter_def isUpperLetter_def)
  have "inClass (toUpperCaseUnit c)"
    using assms up by (cases "isLowerLetter c") (simp_all add: toUpperCaseUnit_def inClass_def)
  moreover have "inClass (toLowerCaseUnit c)"
    using assms low by (cases "isUpperLetter c") (simp_all add: toLowerCaseUnit_def inClass_def)
  ultimately show ?thesis ..
qed

lemma capitalized_wellFormed:
  "t \<noteq> [] \<Longrightarrow> list_all inClass t \<Longrightarrow> capitalized t \<noteq> [] \<and> list_all inClass (capitalized t)"
  by (cases t) (auto simp: capitalized_def list_all_iff unit_case_inClass)

lemma noDuplicates_add:
  assumes "noDuplicates (todos s)"
  shows "noDuplicates (todos (addTodo s))"
proof (cases "isValid (validateAndFormatText (todos s) (input s) (- 1))")
  case True
  let ?n = "formattedText (validateAndFormatText (todos s) (input s) (- 1))"
  have "\<not> isDuplicate (todos s) ?n (- 1)"
    using validate_valid [OF True] by simp
  then have "toLowerCase ?n \<notin> set (map (\<lambda>t. toLowerCase (text' t)) (todos s))"
    by (auto simp: isDuplicate_no_exclusion)
  then show ?thesis
    using assms True by (simp add: addTodo_at noDuplicates_def)
next
  case False
  then show ?thesis using assms by (simp add: addTodo_at)
qed

lemma noDuplicates_edit:
  assumes "noDuplicates (todos s)"
  shows "noDuplicates (todos (saveEdit i s))"
proof (cases "isValid (validateAndFormatText (todos s) (editInput s) i) \<and> validIndex i (todos s)")
  case True
  let ?ts = "todos s"
  let ?f = "\<lambda>t. toLowerCase (text' t)"
  let ?n = "formattedText (validateAndFormatText ?ts (editInput s) i)"
  have i: "nat i < length ?ts" and i0: "int (nat i) = i"
    using True by (auto simp: validIndex_def)
  have nd: "\<not> isDuplicate ?ts ?n i"
    using validate_valid [of ?ts "editInput s" i] True by simp
  have "toLowerCase ?n \<notin> set (map ?f ?ts) - {map ?f ?ts ! nat i}"
  proof
    assume "toLowerCase ?n \<in> set (map ?f ?ts) - {map ?f ?ts ! nat i}"
    then obtain j where j: "j < length ?ts" "?f (?ts ! j) = toLowerCase ?n"
      and ne: "toLowerCase ?n \<noteq> ?f (?ts ! nat i)"
      using i by (auto simp: in_set_conv_nth)
    from j ne have "j \<noteq> nat i" by auto
    then have "int j \<noteq> i" using i0 by auto
    with j nd show False by (auto simp: isDuplicate_iff)
  qed
  then have "distinct ((map ?f ?ts)[nat i := toLowerCase ?n])"
    using assms by (simp add: noDuplicates_def distinct_list_update)
  moreover have "map ?f (?ts[nat i := (?ts ! nat i)\<lparr>text' := ?n\<rparr>]) = (map ?f ?ts)[nat i := toLowerCase ?n]"
    by (simp add: map_update)
  ultimately show ?thesis
    using True by (simp add: saveEdit_at noDuplicates_def)
next
  case False
  then show ?thesis using assms by (auto simp: saveEdit_at)
qed

lemma noDuplicates_toggle:
  assumes "noDuplicates (todos s)"
  shows "noDuplicates (todos (toggleTodo i s))"
proof -
  have "map (\<lambda>t. toLowerCase (text' t)) (todos (toggleTodo i s))
        = map (\<lambda>t. toLowerCase (text' t)) (todos s)"
    by (rule nth_equalityI) (auto simp: toggleTodo_at nth_list_update validIndex_def)
  then show ?thesis using assms by (simp add: noDuplicates_def)
qed

lemma noDuplicates_remove:
  assumes "noDuplicates (todos s)"
  shows "noDuplicates (todos (removeTodo i s))"
proof (cases "validIndex i (todos s)")
  case True
  then have "nat i < length (todos s)" by (auto simp: validIndex_def)
  then have "todos s = take (nat i) (todos s) @ todos s ! nat i # drop (Suc (nat i)) (todos s)"
    by (rule id_take_nth_drop)
  then have "distinct (map (\<lambda>t. toLowerCase (text' t))
      (take (nat i) (todos s) @ todos s ! nat i # drop (Suc (nat i)) (todos s)))"
    using assms by (simp add: noDuplicates_def)
  then show ?thesis
    using True by (simp add: removeTodo_at noDuplicates_def)
next
  case False
  then show ?thesis using assms by (simp add: removeTodo_at)
qed

lemma noDuplicates_step:
  "noDuplicates (todos s) \<Longrightarrow> noDuplicates (todos (step s e))"
  by (cases e)
    (simp_all add: noDuplicates_add noDuplicates_edit noDuplicates_toggle noDuplicates_remove
      changeInput_def changeEditInput_def)

lemma noDuplicates_foldl:
  "noDuplicates (todos s) \<Longrightarrow> noDuplicates (todos (foldl step s evs))"
  by (induction evs arbitrary: s) (simp_all add: noDuplicates_step)

lemma wellFormed_step:
  assumes "wellFormed (todos s)"
  shows "wellFormed (todos (step s e))"
proof (cases e)
  case (Add raw)
  let ?s = "changeInput raw s"
  have ts: "todos ?s = todos s" by (simp add: changeInput_def)
  show ?thesis
  proof (cases "isValid (validateAndFormatText (todos ?s) (input ?s) (- 1))")
    case True
    from validate_valid [OF True] capitalized_wellFormed [of "trim (input ?s)"]
    show ?thesis using assms Add True ts
      by (simp add: addTodo_at wellFormed_def)
  next
    case False
    then show ?thesis using assms Add ts by (simp add: addTodo_at)
  qed
next
  case (Edit i raw)
  let ?s = "changeEditInput raw s"
  have ts: "todos ?s = todos s" by (simp add: changeEditInput_def)
  show ?thesis
  proof (cases "isValid (validateAndFormatText (todos ?s) (editInput ?s) i) \<and> validIndex i (todos ?s)")
    case True
    let ?n = "formattedText (validateAndFormatText (todos ?s) (editInput ?s) i)"
    have n: "?n \<noteq> [] \<and> list_all inClass ?n"
      using validate_valid [of "todos ?s" "editInput ?s" i] True
        capitalized_wellFormed [of "trim (editInput ?s)"] by simp
    have "\<forall>t \<in> set ((todos s)[nat i := (todos s ! nat i)\<lparr>text' := ?n\<rparr>]).
        text' t \<noteq> [] \<and> list_all inClass (text' t)"
    proof
      fix t
      assume "t \<in> set ((todos s)[nat i := (todos s ! nat i)\<lparr>text' := ?n\<rparr>])"
      then have "t \<in> insert ((todos s ! nat i)\<lparr>text' := ?n\<rparr>) (set (todos s))"
        using set_update_subset_insert by fastforce
      then show "text' t \<noteq> [] \<and> list_all inClass (text' t)"
        using n assms by (auto simp: wellFormed_def list_all_iff)
    qed
    then show ?thesis
      using Edit True ts by (simp add: saveEdit_at wellFormed_def list_all_iff)
  next
    case False
    then show ?thesis using assms Edit ts by (auto simp: saveEdit_at)
  qed
next
  case (Toggle i)
  have "\<forall>t \<in> set (todos (toggleTodo i s)). text' t \<noteq> [] \<and> list_all inClass (text' t)"
  proof
    fix t
    assume t: "t \<in> set (todos (toggleTodo i s))"
    show "text' t \<noteq> [] \<and> list_all inClass (text' t)"
    proof (cases "validIndex i (todos s)")
      case True
      let ?u = "(todos s ! nat i)\<lparr>completed := \<not> completed (todos s ! nat i)\<rparr>"
      from True have "nat i < length (todos s)" by (auto simp: validIndex_def)
      then have "todos s ! nat i \<in> set (todos s)" by simp
      moreover from t True have "t \<in> insert ?u (set (todos s))"
        using set_update_subset_insert [of "todos s" "nat i" ?u] by (auto simp: toggleTodo_at)
      ultimately show ?thesis
        using assms by (auto simp: wellFormed_def list_all_iff)
    next
      case False
      then show ?thesis using t assms by (auto simp: toggleTodo_at wellFormed_def list_all_iff)
    qed
  qed
  then show ?thesis using Toggle by (simp add: wellFormed_def list_all_iff)
next
  case (Delete i)
  have "set (todos (removeTodo i s)) \<subseteq> set (todos s)"
    by (auto simp: removeTodo_at dest: in_set_takeD in_set_dropD)
  then show ?thesis using assms Delete by (auto simp: wellFormed_def list_all_iff)
qed

lemma wellFormed_foldl:
  "wellFormed (todos s) \<Longrightarrow> wellFormed (todos (foldl step s evs))"
  by (induction evs arbitrary: s) (simp_all add: wellFormed_step)

section \<open>Reachable states\<close>

text \<open>
  C4. In every state that a sequence of add, edit, toggle and delete operations
  reaches from the initial one, no two items have texts that are equal up to case;
  each operation keeps it so.
\<close>

theorem reachable_no_duplicates:
  "(\<forall>i j. i < j \<and> j < length (todos (run evs)) \<longrightarrow>
       toLowerCase (text' (todos (run evs) ! i)) \<noteq> toLowerCase (text' (todos (run evs) ! j)))
   \<and> (noDuplicates (todos s) \<longrightarrow> noDuplicates (todos (step s e)))"
proof -
  have "noDuplicates (todos initial)"
    by (simp add: noDuplicates_def initial_def)
  then have "noDuplicates (todos (run evs))"
    unfolding run_def by (rule noDuplicates_foldl)
  then have "distinct (map (\<lambda>t. toLowerCase (text' t)) (todos (run evs)))"
    by (simp add: noDuplicates_def)
  then have "\<forall>i j. i < j \<and> j < length (todos (run evs)) \<longrightarrow>
       toLowerCase (text' (todos (run evs) ! i)) \<noteq> toLowerCase (text' (todos (run evs) ! j))"
    by (auto simp: distinct_conv_nth)
  then show ?thesis
    using noDuplicates_step by blast
qed

theorem reachable_no_duplicates_witness:
  "todos (run [Add (str ''task''), Add (str ''TASK''), Add (str ''milk''), Edit 1 (str ''Task'')])
     = [\<lparr>text' = str ''Task'', completed = False\<rparr>, \<lparr>text' = str ''Milk'', completed = False\<rparr>]
   \<and> toLowerCase (str ''Task'') \<noteq> toLowerCase (str ''Milk'')
   \<and> noDuplicates [\<lparr>text' = str ''Task'', completed = False\<rparr>]
   \<and> noDuplicates (todos (step \<lparr>todos = [\<lparr>text' = str ''Task'', completed = False\<rparr>],
         input = [], validationMessage = [], editingIndex = - 1, editInput = []\<rparr>
         (Add (str ''tAsk''))))"
proof -
  let ?evs = "[Add (str ''task''), Add (str ''TASK''), Add (str ''milk''), Edit 1 (str ''Task'')]"
  let ?s = "\<lparr>todos = [\<lparr>text' = str ''Task'', completed = False\<rparr>],
         input = [], validationMessage = [], editingIndex = - 1, editInput = []\<rparr>"
  have r: "todos (run ?evs)
     = [\<lparr>text' = str ''Task'', completed = False\<rparr>, \<lparr>text' = str ''Milk'', completed = False\<rparr>]"
    by (simp add: handler_defs string_defs unit_defs)
  have n: "noDuplicates (todos ?s)"
    by (simp add: noDuplicates_def)
  have "0 < (1::nat) \<and> 1 < length (todos (run ?evs))"
    unfolding r by simp
  then have "toLowerCase (text' (todos (run ?evs) ! 0)) \<noteq> toLowerCase (text' (todos (run ?evs) ! 1))"
    using reachable_no_duplicates [of ?evs ?s "Add (str ''tAsk'')"] by blast
  moreover have "noDuplicates (todos (step ?s (Add (str ''tAsk''))))"
    using reachable_no_duplicates [of ?evs ?s "Add (str ''tAsk'')"] n by blast
  ultimately show ?thesis
    using r n by simp
qed

text \<open>
  C5. In every state that a sequence of add, edit, toggle and delete operations
  reaches, every item's text is non-empty and holds only letters, digits and the space
  character.

  The source does not keep it, by the same class \<open>\s\<close> of its regular expression that
  C2 meets: adding the text "a", tab, "b" to the empty collection reaches a state
  whose only item has a tab in its text.
\<close>

theorem reachable_text_with_tab:
  "todos (run [Add [97, 9, 98]]) = [\<lparr>text' = [65, 9, 98], completed = False\<rparr>]
   \<and> \<not> list_all alnumOrSpace (text' (hd (todos (run [Add [97, 9, 98]]))))"
  by (simp add: handler_defs string_defs unit_defs)

text \<open>
  What the handlers do maintain: a stored text is never empty and never leaves the
  class of the regular expression. This is the fact that the model of the case
  mappings rests on.
\<close>

lemma reachable_wellFormed:
  "(\<forall>t \<in> set (todos (run evs)).
       text' t \<noteq> [] \<and> (\<forall>c \<in> set (text' t). alnumOrSpace c \<or> isWhiteSpace c))
   \<and> (wellFormed (todos s) \<longrightarrow> wellFormed (todos (step s e)))"
proof -
  have "wellFormed (todos initial)"
    by (simp add: wellFormed_def initial_def)
  then have "wellFormed (todos (run evs))"
    unfolding run_def by (rule wellFormed_foldl)
  then have "\<forall>t \<in> set (todos (run evs)).
       text' t \<noteq> [] \<and> (\<forall>c \<in> set (text' t). alnumOrSpace c \<or> isWhiteSpace c)"
    by (auto simp: wellFormed_def list_all_iff inClass_def alnumOrSpace_def)
  then show ?thesis
    using wellFormed_step by blast
qed

section \<open>Editing an item\<close>

text \<open>
  C6. For a valid index \<open>i\<close> and an edit text that passes the two checks of validation:
  if the normalised text equals, up to case, the text of some item other than \<open>i\<close>,
  \<open>saveEdit\<close> reports "This todo item already exists" and changes nothing else; if it
  equals that of no other item, \<open>saveEdit\<close> succeeds, replaces the text of item \<open>i\<close> by
  the normalised text and leaves its \<open>completed\<close> flag; and where no two items collide,
  editing item \<open>i\<close> to its own text, up to case, is such a success.
\<close>

theorem edit_duplicate_and_self:
  assumes "validIndex i (todos s)"
    and "trim (editInput s) \<noteq> []"
    and "list_all inClass (trim (editInput s))"
  shows "((\<exists>j < length (todos s). int j \<noteq> i \<and>
            toLowerCase (text' (todos s ! j)) = toLowerCase (capitalized (trim (editInput s)))) \<longrightarrow>
          saveEdit i s = s\<lparr>validationMessage := ''This todo item already exists''\<rparr>
          \<and> todos (saveEdit i s) = todos s)
       \<and> (\<not> (\<exists>j < length (todos s). int j \<noteq> i \<and>
            toLowerCase (text' (todos s ! j)) = toLowerCase (capitalized (trim (editInput s)))) \<longrightarrow>
          validationMessage (saveEdit i s) = []
          \<and> todos (saveEdit i s) =
              (todos s)[nat i := (todos s ! nat i)\<lparr>text' := capitalized (trim (editInput s))\<rparr>]
          \<and> text' (todos (saveEdit i s) ! nat i) = capitalized (trim (editInput s))
          \<and> completed (todos (saveEdit i s) ! nat i) = completed (todos s ! nat i))
       \<and> (noDuplicates (todos s) \<and>
           toLowerCase (capitalized (trim (editInput s))) = toLowerCase (text' (todos s ! nat i)) \<longrightarrow>
          validationMessage (saveEdit i s) = []
          \<and> text' (todos (saveEdit i s) ! nat i) = capitalized (trim (editInput s))
          \<and> completed (todos (saveEdit i s) ! nat i) = completed (todos s ! nat i))"
proof -
  let ?n = "capitalized (trim (editInput s))"
  let ?dup = "\<exists>j < length (todos s). int j \<noteq> i \<and> toLowerCase (text' (todos s ! j)) = toLowerCase ?n"
  have i: "nat i < length (todos s)" and i0: "int (nat i) = i"
    using assms(1) by (auto simp: validIndex_def)
  have rejected: "saveEdit i s = s\<lparr>validationMessage := ''This todo item already exists''\<rparr>
      \<and> todos (saveEdit i s) = todos s" if ?dup
  proof -
    from that have "isDuplicate (todos s) ?n i"
      by (simp add: isDuplicate_iff)
    then have v: "validateAndFormatText (todos s) (editInput s) i =
        \<lparr>isValid = False, formattedText = [], message = ''This todo item already exists''\<rparr>"
      using assms(2,3) by (simp add: validate_duplicate)
    show ?thesis by (simp add: saveEdit_def v)
  qed
  have accepted: "validationMessage (saveEdit i s) = []
      \<and> todos (saveEdit i s) = (todos s)[nat i := (todos s ! nat i)\<lparr>text' := ?n\<rparr>]
      \<and> text' (todos (saveEdit i s) ! nat i) = ?n
      \<and> completed (todos (saveEdit i s) ! nat i) = completed (todos s ! nat i)" if "\<not> ?dup"
  proof -
    from that have "\<not> isDuplicate (todos s) ?n i"
      by (simp add: isDuplicate_iff)
    then have v: "validateAndFormatText (todos s) (editInput s) i =
        \<lparr>isValid = True, formattedText = ?n, message = []\<rparr>"
      using assms(2,3) by (simp add: validate_ok)
    have m: "validationMessage (saveEdit i s) = []"
      by (simp add: saveEdit_def v)
    have t: "todos (saveEdit i s) = (todos s)[nat i := (todos s ! nat i)\<lparr>text' := ?n\<rparr>]"
      using assms(1) by (simp add: saveEdit_at v)
    show ?thesis using m t i by simp
  qed
  have self: "\<not> ?dup"
    if "noDuplicates (todos s) \<and> toLowerCase ?n = toLowerCase (text' (todos s ! nat i))"
  proof
    assume ?dup
    then obtain j where j: "j < length (todos s)" "int j \<noteq> i"
      "toLowerCase (text' (todos s ! j)) = toLowerCase ?n" by blast
    from j(2) i0 have "j \<noteq> nat i" by auto
    moreover have "distinct (map (\<lambda>t. toLowerCase (text' t)) (todos s))"
      using that by (simp add: noDuplicates_def)
    ultimately have "toLowerCase (text' (todos s ! j)) \<noteq> toLowerCase (text' (todos s ! nat i))"
      using j(1) i by (auto simp: distinct_conv_nth)
    with j(3) that show False by simp
  qed
  show ?thesis
    using rejected accepted self by blast
qed

theorem edit_duplicate_and_self_witness:
  "run [Add (str ''first task''), Add (str ''Second Task''), Toggle 1, Edit 1 (str ''FIRST TASK'')]
     = (changeEditInput (str ''FIRST TASK'')
          (run [Add (str ''first task''), Add (str ''Second Task''), Toggle 1]))
        \<lparr>validationMessage := ''This todo item already exists''\<rparr>
   \<and> todos (run [Add (str ''first task''), Add (str ''Second Task''), Toggle 1, Edit 1 (str ''third'')])
     = [\<lparr>text' = str ''First task'', completed = False\<rparr>, \<lparr>text' = str ''Third'', completed = True\<rparr>]
   \<and> validationMessage
        (run [Add (str ''first task''), Add (str ''Second Task''), Toggle 1, Edit 1 (str '' SECOND task'')])
     = []
   \<and> text' (todos
        (run [Add (str ''first task''), Add (str ''Second Task''), Toggle 1, Edit 1 (str '' SECOND task'')]) ! 1)
     = str ''Second task''"
proof -
  let ?s = "run [Add (str ''first task''), Add (str ''Second Task''), Toggle 1]"
  let ?d = "changeEditInput (str ''FIRST TASK'') ?s"
  let ?n = "changeEditInput (str ''third'') ?s"
  let ?o = "changeEditInput (str '' SECOND task'') ?s"
  have s: "todos ?s =
      [\<lparr>text' = str ''First task'', completed = False\<rparr>, \<lparr>text' = str ''Second task'', completed = True\<rparr>]"
    by (simp add: handler_defs string_defs unit_defs)
  have ts: "todos ?d = todos ?s" "todos ?n = todos ?s" "todos ?o = todos ?s"
    by (simp_all add: changeEditInput_def)
  have td: "trim (editInput ?d) = str ''FIRST TASK''"
    and tn: "trim (editInput ?n) = str ''third''"
    and to: "trim (editInput ?o) = str ''SECOND task''"
    by (simp_all add: changeEditInput_def string_defs unit_defs)
  have cd: "capitalized (str ''FIRST TASK'') = str ''First task''"
    and cn: "capitalized (str ''third'') = str ''Third''"
    and co: "capitalized (str ''SECOND task'') = str ''Second task''"
    by (simp_all add: string_defs unit_defs)
  have v: "validIndex 1 (todos ?d)" "validIndex 1 (todos ?n)" "validIndex 1 (todos ?o)"
    unfolding ts s by (simp_all add: validIndex_def)
  have d1: "trim (editInput ?d) \<noteq> []" and d2: "list_all inClass (trim (editInput ?d))"
    unfolding td by (simp_all add: str_def unit_defs)
  have n1: "trim (editInput ?n) \<noteq> []" and n2: "list_all inClass (trim (editInput ?n))"
    unfolding tn by (simp_all add: str_def unit_defs)
  have o1: "trim (editInput ?o) \<noteq> []" and o2: "list_all inClass (trim (editInput ?o))"
    unfolding to by (simp_all add: str_def unit_defs)
  have d3: "\<exists>j < length (todos ?d). int j \<noteq> 1 \<and>
      toLowerCase (text' (todos ?d ! j)) = toLowerCase (capitalized (trim (editInput ?d)))"
    unfolding td cd ts s by (rule exI [of _ 0]) simp
  have n3: "\<not> (\<exists>j < length (todos ?n). int j \<noteq> 1 \<and>
      toLowerCase (text' (todos ?n ! j)) = toLowerCase (capitalized (trim (editInput ?n))))"
    unfolding tn cn ts s by (simp add: Ex_less_Suc string_defs unit_defs)
  have o3: "noDuplicates (todos ?o) \<and>
      toLowerCase (capitalized (trim (editInput ?o))) = toLowerCase (text' (todos ?o ! nat 1))"
    unfolding to co ts s by (simp add: noDuplicates_def) (simp add: string_defs unit_defs)
  have rd: "run [Add (str ''first task''), Add (str ''Second Task''), Toggle 1, Edit 1 (str ''FIRST TASK'')]
      = saveEdit 1 ?d"
    and rn: "run [Add (str ''first task''), Add (str ''Second Task''), Toggle 1, Edit 1 (str ''third'')]
      = saveEdit 1 ?n"
    and ro: "run [Add (str ''first task''), Add (str ''Second Task''), Toggle 1, Edit 1 (str '' SECOND task'')]
      = saveEdit 1 ?o"
    by (simp_all add: run_def)
  have "saveEdit 1 ?d = ?d\<lparr>validationMessage := ''This todo item already exists''\<rparr>"
    using edit_duplicate_and_self [OF v(1) d1 d2] d3 by blast
  moreover have "todos (saveEdit 1 ?n) =
      (todos ?n)[nat 1 := (todos ?n ! nat 1)\<lparr>text' := capitalized (trim (editInput ?n))\<rparr>]"
    using edit_duplicate_and_self [OF v(2) n1 n2] n3 by blast
  then have "todos (saveEdit 1 ?n) =
      [\<lparr>text' = str ''First task'', completed = False\<rparr>, \<lparr>text' = str ''Third'', completed = True\<rparr>]"
    unfolding tn cn ts s by simp
  moreover have "validationMessage (saveEdit 1 ?o) = []
      \<and> text' (todos (saveEdit 1 ?o) ! nat 1) = capitalized (trim (editInput ?o))"
    using edit_duplicate_and_self [OF v(3) o1 o2] o3 by blast
  then have "validationMessage (saveEdit 1 ?o) = []
      \<and> text' (todos (saveEdit 1 ?o) ! 1) = str ''Second task''"
    unfolding to co by simp
  ultimately show ?thesis
    unfolding rd rn ro by simp
qed

section \<open>Indices that refer to no item\<close>




section \<open>Toggling an item\<close>

text \<open>
  C8. For a valid index \<open>i\<close>, \<open>toggleTodo i\<close> has no failure: it changes nothing but the
  collection, where it negates the \<open>completed\<close> flag of item \<open>i\<close>, keeps that item's text
  and keeps every other item; toggling twice gives the state back.
\<close>

theorem toggle_flips_and_is_involution:
  assumes "validIndex i (todos s)"
  shows "toggleTodo i s =
           s\<lparr>todos := (todos s)[nat i := (todos s ! nat i)\<lparr>completed := \<not> completed (todos s ! nat i)\<rparr>]\<rparr>
       \<and> validationMessage (toggleTodo i s) = validationMessage s
       \<and> completed (todos (toggleTodo i s) ! nat i) = (\<not> completed (todos s ! nat i))
       \<and> text' (todos (toggleTodo i s) ! nat i) = text' (todos s ! nat i)
       \<and> (\<forall>j < length (todos s). j \<noteq> nat i \<longrightarrow> todos (toggleTodo i s) ! j = todos s ! j)
       \<and> toggleTodo i (toggleTodo i s) = s"
proof -
  let ?u = "(todos s ! nat i)\<lparr>completed := \<not> completed (todos s ! nat i)\<rparr>"
  have i: "nat i < length (todos s)"
    using assms by (auto simp: validIndex_def)
  have t: "todos (toggleTodo i s) = (todos s)[nat i := ?u]"
    using assms by (simp add: toggleTodo_at)
  have "toggleTodo i s = s\<lparr>todos := todos (toggleTodo i s)\<rparr>"
    by (simp add: toggleTodo_def)
  then have w: "toggleTodo i s = s\<lparr>todos := (todos s)[nat i := ?u]\<rparr>"
    using t by simp
  have v: "validIndex i (todos (toggleTodo i s))"
    using assms by (simp add: t validIndex_def)
  have "todos (toggleTodo i (toggleTodo i s)) = todos s"
    using i by (simp add: toggleTodo_at [of i "toggleTodo i s"] v) (simp add: t list_update_same_conv)
  moreover have "toggleTodo i (toggleTodo i s) = s\<lparr>todos := todos (toggleTodo i (toggleTodo i s))\<rparr>"
    by (simp add: toggleTodo_def)
  ultimately have twice: "toggleTodo i (toggleTodo i s) = s"
    by simp
  show ?thesis
    using w t i twice by simp
qed

theorem toggle_flips_and_is_involution_witness:
  "validIndex 0 (todos (run [Add (str ''first task''), Add (str ''Second Task'')]))
   \<and> todos (toggleTodo 0 (run [Add (str ''first task''), Add (str ''Second Task'')]))
       = [\<lparr>text' = str ''First task'', completed = True\<rparr>,
          \<lparr>text' = str ''Second task'', completed = False\<rparr>]
   \<and> toggleTodo 0 (toggleTodo 0 (run [Add (str ''first task''), Add (str ''Second Task'')]))
       = run [Add (str ''first task''), Add (str ''Second Task'')]"
proof -
  let ?s = "run [Add (str ''first task''), Add (str ''Second Task'')]"
  have s: "todos ?s = [\<lparr>text' = str ''First task'', completed = False\<rparr>,
                       \<lparr>text' = str ''Second task'', completed = False\<rparr>]"
    by (simp add: handler_defs string_defs unit_defs)
  have v: "validIndex 0 (todos ?s)"
    unfolding s by (simp add: validIndex_def)
  note T = toggle_flips_and_is_involution [OF v]
  have tw: "toggleTodo 0 (toggleTodo 0 ?s) = ?s"
    and w: "toggleTodo 0 ?s =
      ?s\<lparr>todos := (todos ?s)[nat 0 := (todos ?s ! nat 0)\<lparr>completed := \<not> completed (todos ?s ! nat 0)\<rparr>]\<rparr>"
    using T by blast+
  have "todos (toggleTodo 0 ?s) =
      (todos ?s)[nat 0 := (todos ?s ! nat 0)\<lparr>completed := \<not> completed (todos ?s ! nat 0)\<rparr>]"
    by (subst w) simp
  then have r: "todos (toggleTodo 0 ?s) = [\<lparr>text' = str ''First task'', completed = True\<rparr>,
          \<lparr>text' = str ''Second task'', completed = False\<rparr>]"
    unfolding s by simp
  show ?thesis
    using v r tw by blast
qed

section \<open>Deleting an item and the two views\<close>

text \<open>
  C9. For a valid index \<open>i\<close>, \<open>removeTodo i\<close> removes the item at position \<open>i\<close> and no
  other: the collection is one shorter, the items before \<open>i\<close> stay where they are and
  each item after \<open>i\<close> moves down by one. In every state the incomplete and the
  completed items partition the collection: together they hold every item once, no
  item is in both, and each view keeps the order of the collection. Both views are
  values computed from the state; they return no state.
\<close>

theorem remove_shifts_and_views_partition:
  "(validIndex i (todos s) \<longrightarrow>
      todos (removeTodo i s) = take (nat i) (todos s) @ drop (Suc (nat i)) (todos s)
      \<and> Suc (length (todos (removeTodo i s))) = length (todos s)
      \<and> (\<forall>j < nat i. todos (removeTodo i s) ! j = todos s ! j)
      \<and> (\<forall>j. nat i \<le> j \<and> Suc j < length (todos s) \<longrightarrow>
            todos (removeTodo i s) ! j = todos s ! Suc j))
   \<and> mset (getIncompleteTodos s) + mset (getCompletedTodos s) = mset (todos s)
   \<and> set (getIncompleteTodos s) \<inter> set (getCompletedTodos s) = {}
   \<and> set (getIncompleteTodos s) \<union> set (getCompletedTodos s) = set (todos s)
   \<and> (\<forall>t \<in> set (getIncompleteTodos s). \<not> completed t)
   \<and> (\<forall>t \<in> set (getCompletedTodos s). completed t)
   \<and> subseq (getIncompleteTodos s) (todos s)
   \<and> subseq (getCompletedTodos s) (todos s)"
proof -
  have del: "todos (removeTodo i s) = take (nat i) (todos s) @ drop (Suc (nat i)) (todos s)
      \<and> Suc (length (todos (removeTodo i s))) = length (todos s)
      \<and> (\<forall>j < nat i. todos (removeTodo i s) ! j = todos s ! j)
      \<and> (\<forall>j. nat i \<le> j \<and> Suc j < length (todos s) \<longrightarrow>
            todos (removeTodo i s) ! j = todos s ! Suc j)" if v: "validIndex i (todos s)"
  proof -
    have i: "nat i < length (todos s)"
      using v by (auto simp: validIndex_def)
    have r: "todos (removeTodo i s) = take (nat i) (todos s) @ drop (Suc (nat i)) (todos s)"
      using v by (simp add: removeTodo_at)
    have l: "Suc (length (todos (removeTodo i s))) = length (todos s)"
      using i unfolding r by simp
    have before: "\<forall>j < nat i. todos (removeTodo i s) ! j = todos s ! j"
      using i unfolding r by (simp add: nth_append)
    have after: "\<forall>j. nat i \<le> j \<and> Suc j < length (todos s) \<longrightarrow>
        todos (removeTodo i s) ! j = todos s ! Suc j"
      using i unfolding r by (auto simp: nth_append min_def)
    show ?thesis using r l before after by blast
  qed
  have m: "mset (getIncompleteTodos s) + mset (getCompletedTodos s) = mset (todos s)"
    by (simp add: getIncompleteTodos_def getCompletedTodos_def add.commute)
  have d: "set (getIncompleteTodos s) \<inter> set (getCompletedTodos s) = {}"
    by (auto simp: getIncompleteTodos_def getCompletedTodos_def)
  have u: "set (getIncompleteTodos s) \<union> set (getCompletedTodos s) = set (todos s)"
    by (auto simp: getIncompleteTodos_def getCompletedTodos_def)
  have a: "\<forall>t \<in> set (getIncompleteTodos s). \<not> completed t"
    and c: "\<forall>t \<in> set (getCompletedTodos s). completed t"
    by (simp_all add: getIncompleteTodos_def getCompletedTodos_def)
  have o: "subseq (getIncompleteTodos s) (todos s)" "subseq (getCompletedTodos s) (todos s)"
    by (simp_all add: getIncompleteTodos_def getCompletedTodos_def)
  show ?thesis
    using del m d u a c o by blast
qed

theorem remove_shifts_and_views_partition_witness:
  "validIndex 1 (todos (run [Add (str ''a''), Add (str ''b''), Add (str ''c''), Toggle 0]))
   \<and> todos (run [Add (str ''a''), Add (str ''b''), Add (str ''c''), Toggle 0])
       = [\<lparr>text' = str ''A'', completed = True\<rparr>, \<lparr>text' = str ''B'', completed = False\<rparr>,
          \<lparr>text' = str ''C'', completed = False\<rparr>]
   \<and> todos (removeTodo 1 (run [Add (str ''a''), Add (str ''b''), Add (str ''c''), Toggle 0]))
       = [\<lparr>text' = str ''A'', completed = True\<rparr>, \<lparr>text' = str ''C'', completed = False\<rparr>]
   \<and> getIncompleteTodos (run [Add (str ''a''), Add (str ''b''), Add (str ''c''), Toggle 0])
       = [\<lparr>text' = str ''B'', completed = False\<rparr>, \<lparr>text' = str ''C'', completed = False\<rparr>]
   \<and> getCompletedTodos (run [Add (str ''a''), Add (str ''b''), Add (str ''c''), Toggle 0])
       = [\<lparr>text' = str ''A'', completed = True\<rparr>]
   \<and> mset (getIncompleteTodos (run [Add (str ''a''), Add (str ''b''), Add (str ''c''), Toggle 0]))
       + mset (getCompletedTodos (run [Add (str ''a''), Add (str ''b''), Add (str ''c''), Toggle 0]))
       = mset (todos (run [Add (str ''a''), Add (str ''b''), Add (str ''c''), Toggle 0]))"
proof -
  let ?s = "run [Add (str ''a''), Add (str ''b''), Add (str ''c''), Toggle 0]"
  have s: "todos ?s = [\<lparr>text' = str ''A'', completed = True\<rparr>, \<lparr>text' = str ''B'', completed = False\<rparr>,
          \<lparr>text' = str ''C'', completed = False\<rparr>]"
    by (simp add: handler_defs string_defs unit_defs)
  have v: "validIndex 1 (todos ?s)"
    unfolding s by (simp add: validIndex_def)
  note R = remove_shifts_and_views_partition [of 1 ?s]
  have "todos (removeTodo 1 ?s) = take (nat 1) (todos ?s) @ drop (Suc (nat 1)) (todos ?s)"
    using R v by blast
  then have r: "todos (removeTodo 1 ?s)
      = [\<lparr>text' = str ''A'', completed = True\<rparr>, \<lparr>text' = str ''C'', completed = False\<rparr>]"
    unfolding s by simp
  have m: "mset (getIncompleteTodos ?s) + mset (getCompletedTodos ?s) = mset (todos ?s)"
    using R by blast
  have a: "getIncompleteTodos ?s
      = [\<lparr>text' = str ''B'', completed = False\<rparr>, \<lparr>text' = str ''C'', completed = False\<rparr>]"
    and c: "getCompletedTodos ?s = [\<lparr>text' = str ''A'', completed = True\<rparr>]"
    unfolding getIncompleteTodos_def getCompletedTodos_def s by simp_all
  show ?thesis
    using v s r a c m by blast
qed

section \<open>What the operations leave alone\<close>

text \<open>
  C10. \<open>toggleTodo i\<close> and \<open>saveEdit i\<close> keep the length of the collection and every
  item at a position other than \<open>i\<close>; \<open>addTodo\<close> keeps every item it found, in place,
  and a successful one makes the collection one longer.
\<close>

theorem operations_frame:
  "length (todos (toggleTodo i s)) = length (todos s)
   \<and> (\<forall>j < length (todos s). int j \<noteq> i \<longrightarrow> todos (toggleTodo i s) ! j = todos s ! j)
   \<and> length (todos (saveEdit i s)) = length (todos s)
   \<and> (\<forall>j < length (todos s). int j \<noteq> i \<longrightarrow> todos (saveEdit i s) ! j = todos s ! j)
   \<and> take (length (todos s)) (todos (addTodo s)) = todos s
   \<and> (\<forall>j < length (todos s). todos (addTodo s) ! j = todos s ! j)
   \<and> (isValid (validateAndFormatText (todos s) (input s) (- 1)) \<longrightarrow>
        length (todos (addTodo s)) = Suc (length (todos s)))"
proof -
  have t1: "length (todos (toggleTodo i s)) = length (todos s)"
    by (simp add: toggleTodo_at)
  have t2: "\<forall>j < length (todos s). int j \<noteq> i \<longrightarrow> todos (toggleTodo i s) ! j = todos s ! j"
    by (auto simp: toggleTodo_at validIndex_def nth_list_update)
  have e1: "length (todos (saveEdit i s)) = length (todos s)"
    by (simp add: saveEdit_at)
  have e2: "\<forall>j < length (todos s). int j \<noteq> i \<longrightarrow> todos (saveEdit i s) ! j = todos s ! j"
    by (auto simp: saveEdit_at validIndex_def nth_list_update)
  have a1: "take (length (todos s)) (todos (addTodo s)) = todos s"
    by (simp add: addTodo_at)
  have a2: "\<forall>j < length (todos s). todos (addTodo s) ! j = todos s ! j"
    by (simp add: addTodo_at nth_append)
  have a3: "isValid (validateAndFormatText (todos s) (input s) (- 1)) \<longrightarrow>
        length (todos (addTodo s)) = Suc (length (todos s))"
    by (simp add: addTodo_at)
  show ?thesis
    using t1 t2 e1 e2 a1 a2 a3 by blast
qed

theorem operations_frame_witness:
  "todos (run [Add (str ''a''), Add (str ''b'')])
       = [\<lparr>text' = str ''A'', completed = False\<rparr>, \<lparr>text' = str ''B'', completed = False\<rparr>]
   \<and> todos (toggleTodo 1 (run [Add (str ''a''), Add (str ''b'')])) ! 0 = \<lparr>text' = str ''A'', completed = False\<rparr>
   \<and> todos (saveEdit 1 (changeEditInput (str ''c'') (run [Add (str ''a''), Add (str ''b'')]))) ! 0
       = \<lparr>text' = str ''A'', completed = False\<rparr>
   \<and> isValid (validateAndFormatText (todos (run [Add (str ''a''), Add (str ''b'')])) (str ''c'') (- 1))
   \<and> length (todos (addTodo (changeInput (str ''c'') (run [Add (str ''a''), Add (str ''b'')])))) = 3
   \<and> take 2 (todos (addTodo (changeInput (str ''c'') (run [Add (str ''a''), Add (str ''b'')]))))
       = [\<lparr>text' = str ''A'', completed = False\<rparr>, \<lparr>text' = str ''B'', completed = False\<rparr>]"
proof -
  let ?s = "run [Add (str ''a''), Add (str ''b'')]"
  let ?e = "changeEditInput (str ''c'') ?s"
  let ?a = "changeInput (str ''c'') ?s"
  have s: "todos ?s = [\<lparr>text' = str ''A'', completed = False\<rparr>, \<lparr>text' = str ''B'', completed = False\<rparr>]"
    by (simp add: handler_defs string_defs unit_defs)
  have te: "todos ?e = todos ?s" and ta: "todos ?a = todos ?s" and ia: "input ?a = str ''c''"
    by (simp_all add: changeEditInput_def changeInput_def)
  have j: "0 < length (todos ?s) \<and> int 0 \<noteq> 1"
    unfolding s by simp
  have v: "isValid (validateAndFormatText (todos ?s) (str ''c'') (- 1))"
    unfolding s by (simp add: validateAndFormatText_def isDuplicate_def string_defs unit_defs)
  have t: "todos (toggleTodo 1 ?s) ! 0 = todos ?s ! 0"
    using operations_frame [of 1 ?s] j by blast
  have e: "todos (saveEdit 1 ?e) ! 0 = todos ?e ! 0"
    using operations_frame [of 1 ?e] j unfolding te by blast
  have l: "length (todos (addTodo ?a)) = Suc (length (todos ?a))"
    and k: "take (length (todos ?a)) (todos (addTodo ?a)) = todos ?a"
    using operations_frame [of 1 ?a] v unfolding ta ia by blast+
  have l3: "length (todos (addTodo ?a)) = 3"
    using l unfolding ta s by simp
  have k2: "take 2 (todos (addTodo ?a)) = todos ?s"
    using k unfolding ta s by (simp add: numeral_2_eq_2)
  show ?thesis
    using s t e v l3 k2 unfolding te by simp
qed

end
